theory Spec2Isabelle
  imports Main "HOL-Library.AList"
begin

section \<open>Dynamic values and the store\<close>

text \<open>
  A Go \<^verbatim>\<open>interface{}\<close> value is a tagged union of the dynamic types that the
  store's code distinguishes: the type switch of \<^verbatim>\<open>Get\<close> (bool, string, the
  signed integer widths, the float widths, time.Time, time.Duration, []string), the two
  map types of \<^verbatim>\<open>searchMap\<close>, and the nil interface. \<open>VOther\<close> stands for a
  value of any further non-map type (an unsigned integer, a slice of interfaces, ...),
  identified by an opaque number. Integers carry their mathematical value together with
  their Go type; floats, times and durations carry an opaque payload.
  A Go map is an association list read with \<open>map_of\<close>, written with
  \<open>AList.update\<close> and \<open>AList.delete\<close>.
\<close>

datatype ikind = KInt | KInt8 | KInt16 | KInt32 | KInt64

datatype fkind = KFloat32 | KFloat64

datatype val =
    VNil
  | VBool bool
  | VString string
  | VInt ikind int
  | VFloat fkind int
  | VTime int
  | VDuration int
  | VStrings "string list"
  | VMap "(string \<times> val) list"
  | VIMap "(val \<times> val) list"
  | VOther nat

type_synonym smap = "(string \<times> val) list"

text \<open>The struct \<^verbatim>\<open>Config\<close>, field by field.\<close>

record Config =
  keyDelm :: string
  configName :: string
  configFile :: string
  configType :: string
  configPaths :: "string list"
  config :: smap
  defaults :: smap
  overrides :: smap
  aliases :: "(string \<times> string) list"
  verbose :: bool
  typeByDefValue :: bool

text \<open>
  The conversions of the external package \<^verbatim>\<open>cast\<close> are parameters of the model.
  Their result types are the static return types of the Go functions.
\<close>

record caster =
  toBool :: "val \<Rightarrow> bool"
  toString :: "val \<Rightarrow> string"
  toInt :: "val \<Rightarrow> int"
  toFloat64 :: "val \<Rightarrow> int"
  toTime :: "val \<Rightarrow> int"
  toDuration :: "val \<Rightarrow> int"
  toStringSlice :: "val \<Rightarrow> string list"
  toStringMap :: "val \<Rightarrow> smap"

text \<open>A runtime panic of the Go code (\<^verbatim>\<open>p[0]\<close> on an empty slice).\<close>

datatype error = IndexOutOfRange

text \<open>\<^verbatim>\<open>New\<close>: the empty store. Unset string fields hold Go's zero value.\<close>

definition New :: Config where
  "New = \<lparr> keyDelm = ''.'', configName = ''config'', configFile = '''',
     configType = '''', configPaths = [], config = [], defaults = [],
     overrides = [], aliases = [], verbose = False, typeByDefValue = False \<rparr>"

section \<open>String helpers of the Go library\<close>

text \<open>
  \<^verbatim>\<open>strings.ToLower\<close> on ASCII: the letters A to Z are mapped to a to z, every other
  byte is kept. The general theorems below use no property of \<open>ToLower\<close>; only the
  closed examples evaluate it.
\<close>

definition lower_char :: "char \<Rightarrow> char" where
  "lower_char ch =
     (case map_of (zip ''ABCDEFGHIJKLMNOPQRSTUVWXYZ'' ''abcdefghijklmnopqrstuvwxyz'') ch of
        Some l \<Rightarrow> l
      | None \<Rightarrow> ch)"

definition ToLower :: "string \<Rightarrow> string" where
  "ToLower s = map lower_char s"

fun HasPrefix :: "string \<Rightarrow> string \<Rightarrow> bool" where
  "HasPrefix s [] = True"
| "HasPrefix [] (y # ys) = False"
| "HasPrefix (x # xs) (y # ys) = (x = y \<and> HasPrefix xs ys)"

text \<open>\<^verbatim>\<open>strings.Contains(s, substr)\<close>.\<close>

fun Contains :: "string \<Rightarrow> string \<Rightarrow> bool" where
  "Contains [] sub = (sub = [])"
| "Contains (x # xs) sub = (HasPrefix (x # xs) sub \<or> Contains xs sub)"

text \<open>
  \<^verbatim>\<open>strings.Split(s, sep)\<close>: with a non-empty separator the pieces between its
  leftmost non-overlapping occurrences (at least one piece); with the empty separator
  the characters of \<open>s\<close>, one by one (no piece for the empty string).
\<close>

function splitOn :: "string \<Rightarrow> string \<Rightarrow> string \<Rightarrow> string list" where
  "splitOn sep cur [] = [cur]"
| "splitOn sep cur (x # xs) =
     (if sep \<noteq> [] \<and> HasPrefix (x # xs) sep
      then cur # splitOn sep [] (drop (length sep) (x # xs))
      else splitOn sep (cur @ [x]) xs)"
  by pat_completeness auto
termination
  by (relation "measure (\<lambda>(sep, cur, s). length s)") auto

definition Split :: "string \<Rightarrow> string \<Rightarrow> string list" where
  "Split s sep = (if sep = [] then map (\<lambda>ch. [ch]) s else splitOn sep [] s)"

section \<open>Lookup\<close>

fun isNil :: "val \<Rightarrow> bool" where
  "isNil VNil = True"
| "isNil _ = False"

text \<open>\<^verbatim>\<open>reflect.TypeOf(v).Kind() == reflect.Map\<close>, for a non-nil \<open>v\<close>.\<close>

fun isMapKind :: "val \<Rightarrow> bool" where
  "isMapKind (VMap m) = True"
| "isMapKind (VIMap m) = True"
| "isMapKind _ = False"

text \<open>
  \<^verbatim>\<open>searchMap\<close>: the map itself when no segment is left; nil when the first segment
  is no key of the map; the descent into a nested map; any other value as it is, whatever
  segments remain.
\<close>

fun searchMap :: "caster \<Rightarrow> smap \<Rightarrow> string list \<Rightarrow> val" where
  "searchMap cst s [] = VMap s"
| "searchMap cst s (p0 # ps) =
     (case map_of s p0 of
        Some next \<Rightarrow>
          (case next of
             VIMap m \<Rightarrow> searchMap cst (toStringMap cst next) ps
           | VMap m \<Rightarrow> searchMap cst m ps
           | _ \<Rightarrow> next)
      | None \<Rightarrow> VNil)"

text \<open>
  \<^verbatim>\<open>realKey\<close> follows the alias table until it reaches a key that is no alias. The
  Go function recurses without a bound; \<open>None\<close> is a call that does not return.
\<close>

partial_function (option) realKey :: "Config \<Rightarrow> string \<Rightarrow> string option" where
  "realKey c key =
     (case map_of (aliases c) key of
        Some newkey \<Rightarrow> realKey c newkey
      | None \<Rightarrow> Some key)"

declare realKey.simps [code]

text \<open>The last two steps of \<^verbatim>\<open>find\<close>: the defaults layer, else nil.\<close>

definition findDefaults :: "Config \<Rightarrow> string \<Rightarrow> val" where
  "findDefaults c key = (case map_of (defaults c) key of Some v \<Rightarrow> v | None \<Rightarrow> VNil)"

text \<open>
  \<^verbatim>\<open>find\<close> (here \<open>find_cfg\<close>, as \<open>find\<close> is a function on lists): overrides, config,
  the dotted-path fallback through \<^verbatim>\<open>find\<close> of the first segment, defaults. The
  fallback returns what \<^verbatim>\<open>searchMap\<close> returns, nil included. \<open>None\<close> is a call that
  does not return, \<open>Some (Inl e)\<close> a panic, \<open>Some (Inr v)\<close> the returned value (\<open>VNil\<close>
  for nil).
\<close>

partial_function (option) find_cfg :: "caster \<Rightarrow> Config \<Rightarrow> string \<Rightarrow> (error + val) option" where
  "find_cfg cst c key0 =
     Option.bind (realKey c key0) (\<lambda>key.
       case map_of (overrides c) key of
         Some v \<Rightarrow> Some (Inr v)
       | None \<Rightarrow>
          (case map_of (config c) key of
             Some v \<Rightarrow> Some (Inr v)
           | None \<Rightarrow>
              if Contains key (keyDelm c) then
                (case Split key (keyDelm c) of
                   [] \<Rightarrow> Some (Inl IndexOutOfRange)
                 | p0 # rest \<Rightarrow>
                     Option.bind (find_cfg cst c p0) (\<lambda>r.
                       case r of
                         Inl e \<Rightarrow> Some (Inl e)
                       | Inr source \<Rightarrow>
                           if \<not> isNil source \<and> isMapKind source
                           then Some (Inr (searchMap cst (toStringMap cst source) rest))
                           else Some (Inr (findDefaults c key))))
              else Some (Inr (findDefaults c key))))"

declare find_cfg.simps [code]

text \<open>
  The type witness of \<^verbatim>\<open>Get\<close> and its type switch. Each branch wraps the typed
  result of the conversion; a witness of any other type leaves the value as it is.
\<close>

definition valType :: "Config \<Rightarrow> string \<Rightarrow> val \<Rightarrow> val" where
  "valType c lcaseKey v =
     (if \<not> typeByDefValue c then v
      else (case map_of (defaults c) lcaseKey of Some defVal \<Rightarrow> defVal | None \<Rightarrow> v))"

fun coerce :: "caster \<Rightarrow> val \<Rightarrow> val \<Rightarrow> val" where
  "coerce cst (VBool b) v = VBool (toBool cst v)"
| "coerce cst (VString s) v = VString (toString cst v)"
| "coerce cst (VInt k n) v = VInt KInt (toInt cst v)"
| "coerce cst (VFloat k x) v = VFloat KFloat64 (toFloat64 cst v)"
| "coerce cst (VTime t) v = VTime (toTime cst v)"
| "coerce cst (VDuration d) v = VDuration (toDuration cst v)"
| "coerce cst (VStrings ss) v = VStrings (toStringSlice cst v)"
| "coerce cst _ v = v"

text \<open>
  \<^verbatim>\<open>Get\<close>. The path \<open>p\<close> is split from the key as given, the key handed to
  \<^verbatim>\<open>find\<close> is lower-cased.
\<close>

definition Get :: "caster \<Rightarrow> Config \<Rightarrow> string \<Rightarrow> (error + val) option" where
  "Get cst c key =
     (let p = Split key (keyDelm c); lcaseKey = ToLower key in
      Option.bind (find_cfg cst c lcaseKey) (\<lambda>r.
        case r of
          Inl e \<Rightarrow> Some (Inl e)
        | Inr v \<Rightarrow>
            Option.bind
              (if isNil v then
                 (case p of
                    [] \<Rightarrow> Some (Inl IndexOutOfRange)
                  | p0 # rest \<Rightarrow>
                      Option.bind (find_cfg cst c p0) (\<lambda>r'.
                        case r' of
                          Inl e \<Rightarrow> Some (Inl e)
                        | Inr source \<Rightarrow>
                            Some (Inr (if \<not> isNil source \<and> isMapKind source
                                       then searchMap cst (toStringMap cst source) rest
                                       else v))))
               else Some (Inr v))
              (\<lambda>r2.
                case r2 of
                  Inl e \<Rightarrow> Some (Inl e)
                | Inr v2 \<Rightarrow>
                    Some (Inr (if isNil v2 then VNil
                               else coerce cst (valType c lcaseKey v2) v2)))))"

text \<open>
  Whether the dotted-path step of \<^verbatim>\<open>find\<close> keeps the lookup of \<open>key\<close> from reaching
  the defaults layer: the key contains the delimiter, and \<^verbatim>\<open>find\<close> of its first
  segment returns a non-nil map (or panics, or does not return).
\<close>

definition fallbackApplies :: "caster \<Rightarrow> Config \<Rightarrow> string \<Rightarrow> bool" where
  "fallbackApplies cst c key =
     (Contains key (keyDelm c) \<and>
      (case Split key (keyDelm c) of
         [] \<Rightarrow> True
       | p0 # rest \<Rightarrow>
           (case find_cfg cst c p0 of
              Some (Inr source) \<Rightarrow> \<not> isNil source \<and> isMapKind source
            | _ \<Rightarrow> True)))"

text \<open>\<^verbatim>\<open>IsSet\<close>: whether \<^verbatim>\<open>Get\<close> returns a non-nil value.\<close>

definition IsSet :: "caster \<Rightarrow> Config \<Rightarrow> string \<Rightarrow> (error + bool) option" where
  "IsSet cst c key =
     Option.bind (Get cst c key) (\<lambda>r.
       case r of Inl e \<Rightarrow> Some (Inl e) | Inr t \<Rightarrow> Some (Inr (\<not> isNil t)))"

text \<open>\<^verbatim>\<open>InConfig\<close>: the key goes through \<^verbatim>\<open>realKey\<close> as it is given.\<close>

definition InConfig :: "Config \<Rightarrow> string \<Rightarrow> bool option" where
  "InConfig c key0 =
     Option.bind (realKey c key0) (\<lambda>key. Some (map_of (config c) key \<noteq> None))"

text \<open>
  \<^verbatim>\<open>AllKeys\<close>: the keys of the three layers, each once (Go leaves their order open).
  \<^verbatim>\<open>AllSettings\<close>: a fresh map from each of them to what \<^verbatim>\<open>Get\<close> returns.
\<close>

definition AllKeys :: "Config \<Rightarrow> string list" where
  "AllKeys c = remdups (map fst (defaults c) @ map fst (config c) @ map fst (overrides c))"

fun collectSettings :: "caster \<Rightarrow> Config \<Rightarrow> string list \<Rightarrow> smap \<Rightarrow> (error + smap) option" where
  "collectSettings cst c [] m = Some (Inr m)"
| "collectSettings cst c (x # xs) m =
     Option.bind (Get cst c x) (\<lambda>r.
       case r of
         Inl e \<Rightarrow> Some (Inl e)
       | Inr v \<Rightarrow> collectSettings cst c xs (AList.update x v m))"

definition AllSettings :: "caster \<Rightarrow> Config \<Rightarrow> (error + smap) option" where
  "AllSettings cst c = collectSettings cst c (AllKeys c) []"

section \<open>Updates\<close>

text \<open>
  The operations that write return the store after the call. \<^verbatim>\<open>SetDefault\<close> and
  \<^verbatim>\<open>Set\<close> store under \<^verbatim>\<open>realKey\<close> of the lower-cased key.
\<close>

definition SetDefault :: "Config \<Rightarrow> string \<Rightarrow> val \<Rightarrow> Config option" where
  "SetDefault c key0 v =
     Option.bind (realKey c (ToLower key0)) (\<lambda>key.
       Some (c\<lparr>defaults := AList.update key v (defaults c)\<rparr>))"

definition Set :: "Config \<Rightarrow> string \<Rightarrow> val \<Rightarrow> Config option" where
  "Set c key0 v =
     Option.bind (realKey c (ToLower key0)) (\<lambda>key.
       Some (c\<lparr>overrides := AList.update key v (overrides c)\<rparr>))"

text \<open>
  One layer's part of the migration in \<^verbatim>\<open>registerAlias\<close>: an entry under the alias
  is deleted and stored under \<open>key\<close>.
\<close>

definition moveEntry :: "string \<Rightarrow> string \<Rightarrow> smap \<Rightarrow> smap" where
  "moveEntry alias key m =
     (case map_of m alias of
        Some v \<Rightarrow> AList.update key v (AList.delete alias m)
      | None \<Rightarrow> m)"

text \<open>
  \<^verbatim>\<open>registerAlias\<close>. \<^verbatim>\<open>realKey(key)\<close> is evaluated on every path (in the guard, or
  for the warning of the else branch), so a call returns only if that call does. The
  warning itself is a log line and leaves the store as it is.
\<close>

definition registerAlias :: "Config \<Rightarrow> string \<Rightarrow> string \<Rightarrow> Config option" where
  "registerAlias c alias0 key =
     (let alias = ToLower alias0 in
      Option.bind (realKey c key) (\<lambda>rk.
        if alias \<noteq> key \<and> alias \<noteq> rk then
          (if map_of (aliases c) alias = None then
             Some (c\<lparr> config := moveEntry alias key (config c),
                      defaults := moveEntry alias key (defaults c),
                      overrides := moveEntry alias key (overrides c),
                      aliases := AList.update alias key (aliases c) \<rparr>)
           else Some c)
        else Some c))"

definition RegisterAlias :: "Config \<Rightarrow> string \<Rightarrow> string \<Rightarrow> Config option" where
  "RegisterAlias c alias key = registerAlias c alias (ToLower key)"

section \<open>Calls on the store\<close>

text \<open>
  A call of a method on the store yields what the method returns and the store the call
  leaves behind. The reading methods assign to no field of the store and to no entry of
  its maps, so they leave the store they were given; the writing methods leave the
  store they build.
\<close>

datatype call =
    CallGet string
  | CallFind string
  | CallSearchMap smap "string list"
  | CallIsSet string
  | CallInConfig string
  | CallAllKeys
  | CallAllSettings
  | CallSet string val
  | CallSetDefault string val
  | CallRegisterAlias string string

datatype ret = RetVal val | RetBool bool | RetKeys "string list" | RetMap smap | RetUnit

fun readOnly :: "call \<Rightarrow> bool" where
  "readOnly (CallSet k v) = False"
| "readOnly (CallSetDefault k v) = False"
| "readOnly (CallRegisterAlias a k) = False"
| "readOnly _ = True"

fun exec :: "caster \<Rightarrow> Config \<Rightarrow> call \<Rightarrow> ((error + ret) \<times> Config) option" where
  "exec cst c (CallGet k) = map_option (\<lambda>r. (map_sum id RetVal r, c)) (Get cst c k)"
| "exec cst c (CallFind k) = map_option (\<lambda>r. (map_sum id RetVal r, c)) (find_cfg cst c k)"
| "exec cst c (CallSearchMap s p) = Some (Inr (RetVal (searchMap cst s p)), c)"
| "exec cst c (CallIsSet k) = map_option (\<lambda>r. (map_sum id RetBool r, c)) (IsSet cst c k)"
| "exec cst c (CallInConfig k) = map_option (\<lambda>b. (Inr (RetBool b), c)) (InConfig c k)"
| "exec cst c CallAllKeys = Some (Inr (RetKeys (AllKeys c)), c)"
| "exec cst c CallAllSettings = map_option (\<lambda>r. (map_sum id RetMap r, c)) (AllSettings cst c)"
| "exec cst c (CallSet k v) = map_option (\<lambda>c'. (Inr RetUnit, c')) (Set c k v)"
| "exec cst c (CallSetDefault k v) = map_option (\<lambda>c'. (Inr RetUnit, c')) (SetDefault c k v)"
| "exec cst c (CallRegisterAlias a k) = map_option (\<lambda>c'. (Inr RetUnit, c')) (RegisterAlias c a k)"

section \<open>A sample of the conversions\<close>

text \<open>
  The closed examples below need the conversions at a few values. \<open>ownCast\<close> converts
  a value that already has the requested type to itself (an integer of any width to the
  native integer of the same value, a float of any width to the same payload, a map with
  interface keys to the map of its string keys) and every other value to the zero value
  of the requested type.
\<close>

definition ownCast :: caster where
  "ownCast = \<lparr>
     toBool = (\<lambda>v. case v of VBool b \<Rightarrow> b | _ \<Rightarrow> False),
     toString = (\<lambda>v. case v of VString s \<Rightarrow> s | _ \<Rightarrow> []),
     toInt = (\<lambda>v. case v of VInt k n \<Rightarrow> n | _ \<Rightarrow> 0),
     toFloat64 = (\<lambda>v. case v of VFloat k x \<Rightarrow> x | _ \<Rightarrow> 0),
     toTime = (\<lambda>v. case v of VTime t \<Rightarrow> t | _ \<Rightarrow> 0),
     toDuration = (\<lambda>v. case v of VDuration d \<Rightarrow> d | _ \<Rightarrow> 0),
     toStringSlice = (\<lambda>v. case v of VStrings ss \<Rightarrow> ss | _ \<Rightarrow> []),
     toStringMap = (\<lambda>v. case v of
        VMap m \<Rightarrow> m
      | VIMap im \<Rightarrow> map (\<lambda>(k, x). (case k of VString s \<Rightarrow> s | _ \<Rightarrow> [], x)) im
      | _ \<Rightarrow> []) \<rparr>"

section \<open>Stores of the closed examples\<close>

definition layered_store :: Config where
  "layered_store = New\<lparr> config := [(''k'', VString ''from config'')],
     defaults := [(''k'', VString ''from defaults'')],
     overrides := [(''k'', VString ''from overrides'')] \<rparr>"

definition int32_store :: Config where
  "int32_store = New\<lparr> config := [(''k'', VInt KInt32 6)],
     defaults := [(''k'', VInt KInt32 7)],
     overrides := [(''k'', VInt KInt32 5)] \<rparr>"

definition typed_store :: Config where
  "typed_store = New\<lparr> config := [(''k'', VString ''c'')],
     defaults := [(''k'', VInt KInt 0)],
     overrides := [(''k'', VString ''abc'')],
     typeByDefValue := True \<rparr>"

definition nested_root :: smap where
  "nested_root = [(''a'', VMap [(''b'', VInt KInt 5)]), (''s'', VString ''x''),
     (''i'', VIMap [(VString ''b'', VInt KInt 7)])]"

definition scalar_store :: Config where
  "scalar_store = New\<lparr> config := [(''a'', VInt KInt 5)] \<rparr>"

definition nested_scalar_store :: Config where
  "nested_scalar_store = New\<lparr> config := [(''a'', VMap [(''b'', VInt KInt 5)])] \<rparr>"

definition shadowed_default_store :: Config where
  "shadowed_default_store = New\<lparr> config := [(''a'', VMap [(''b'', VString ''c'')])],
     defaults := [(''a.b'', VString ''d'')] \<rparr>"

definition default_only_store :: Config where
  "default_only_store = New\<lparr> config := [(''host'', VString ''h'')],
     defaults := [(''port'', VInt KInt 8080)],
     overrides := [(''debug'', VBool True)] \<rparr>"

definition chain_store :: Config where
  "chain_store = New\<lparr> aliases := [(''a'', ''b''), (''b'', ''c'')] \<rparr>"

definition config_a_store :: Config where
  "config_a_store = New\<lparr> config := [(''a'', VInt KInt 1)] \<rparr>"

definition nested_upper_store :: Config where
  "nested_upper_store = New\<lparr> config := [(''a'', VMap [(''B'', VInt KInt 1)])] \<rparr>"

definition stranded_store :: Config where
  "stranded_store = New\<lparr> overrides := [(''b'', VInt KInt 1)],
     aliases := [(''b'', ''c''), (''a'', ''b'')] \<rparr>"

definition dotted_alias_store :: Config where
  "dotted_alias_store = New\<lparr> aliases := [(''a'', ''a.b'')] \<rparr>"

section \<open>Alias resolution and lookup: basic facts\<close>

lemma realKey_no_alias: "map_of (aliases c) key = None \<Longrightarrow> realKey c key = Some key"
  by (subst realKey.simps) simp

lemma realKey_step: "map_of (aliases c) key = Some nk \<Longrightarrow> realKey c key = realKey c nk"
  by (subst realKey.simps) simp

text \<open>A resolved key is no alias.\<close>

lemma realKey_result_no_alias:
  assumes "realKey c key = Some r"
  shows "map_of (aliases c) r = None"
proof (rule realKey.raw_induct [where P = "\<lambda>c key r. map_of (aliases c) r = None", OF _ assms])
  fix rk :: "Config \<Rightarrow> string \<Rightarrow> string option" and c :: Config and key r :: string
  assume IH: "\<And>c key r. rk c key = Some r \<Longrightarrow> map_of (aliases c) r = None"
    and step: "(case map_of (aliases c) key of None \<Rightarrow> Some key | Some nk \<Rightarrow> rk c nk) = Some r"
  show "map_of (aliases c) r = None"
  proof (cases "map_of (aliases c) key")
    case None
    with step show ?thesis by simp
  next
    case (Some nk)
    with step have "rk c nk = Some r" by simp
    then show ?thesis by (rule IH)
  qed
qed

text \<open>Resolution reads the alias table only.\<close>

lemma realKey_aliases_Some:
  assumes "realKey c key = Some r" and eq: "aliases c' = aliases c"
  shows "realKey c' key = Some r"
proof -
  have "c = c \<longrightarrow> realKey c' key = Some r"
  proof (rule realKey.raw_induct [where P = "\<lambda>d key r. d = c \<longrightarrow> realKey c' key = Some r", OF _ assms(1)])
    fix rk :: "Config \<Rightarrow> string \<Rightarrow> string option" and d :: Config and key r :: string
    assume IH: "\<And>d key r. rk d key = Some r \<Longrightarrow> d = c \<longrightarrow> realKey c' key = Some r"
      and step: "(case map_of (aliases d) key of None \<Rightarrow> Some key | Some nk \<Rightarrow> rk d nk) = Some r"
    show "d = c \<longrightarrow> realKey c' key = Some r"
    proof
      assume d: "d = c"
      show "realKey c' key = Some r"
      proof (cases "map_of (aliases c) key")
        case None
        with step d eq show ?thesis by (simp add: realKey_no_alias)
      next
        case (Some nk)
        with step d have "rk c nk = Some r" by simp
        then have "realKey c' nk = Some r" using IH by blast
        with Some eq show ?thesis by (simp add: realKey_step)
      qed
    qed
  qed
  then show ?thesis by simp
qed

lemma realKey_aliases_cong:
  assumes "aliases c' = aliases c"
  shows "realKey c' key = realKey c key"
proof (cases "realKey c key")
  case (Some r)
  then have "realKey c' key = Some r" using assms by (rule realKey_aliases_Some)
  with Some show ?thesis by simp
next
  case None
  show ?thesis
  proof (cases "realKey c' key")
    case None
    with \<open>realKey c key = None\<close> show ?thesis by simp
  next
    case (Some r)
    then have "realKey c key = Some r" using assms [symmetric] by (rule realKey_aliases_Some)
    with None show ?thesis by simp
  qed
qed

lemma find_override_hit:
  "realKey c key0 = Some key \<Longrightarrow> map_of (overrides c) key = Some v \<Longrightarrow>
   find_cfg cst c key0 = Some (Inr v)"
  by (subst find_cfg.simps) simp

lemma Get_found:
  "find_cfg cst c (ToLower k) = Some (Inr v) \<Longrightarrow> \<not> isNil v \<Longrightarrow>
   Get cst c k = Some (Inr (coerce cst (valType c (ToLower k) v) v))"
  by (simp add: Get_def)

lemma find_config_hit:
  "realKey c key0 = Some key \<Longrightarrow> map_of (overrides c) key = None \<Longrightarrow>
   map_of (config c) key = Some v \<Longrightarrow> find_cfg cst c key0 = Some (Inr v)"
  by (subst find_cfg.simps) simp

lemma find_dotted:
  "realKey c key0 = Some key \<Longrightarrow> map_of (overrides c) key = None \<Longrightarrow>
   map_of (config c) key = None \<Longrightarrow> Contains key (keyDelm c) \<Longrightarrow>
   Split key (keyDelm c) = p0 # rest \<Longrightarrow> find_cfg cst c p0 = Some (Inr source) \<Longrightarrow>
   find_cfg cst c key0 =
     Some (Inr (if \<not> isNil source \<and> isMapKind source
                then searchMap cst (toStringMap cst source) rest
                else findDefaults c key))"
  by (subst find_cfg.simps) simp

lemma find_plain:
  "realKey c key0 = Some key \<Longrightarrow> map_of (overrides c) key = None \<Longrightarrow>
   map_of (config c) key = None \<Longrightarrow> \<not> Contains key (keyDelm c) \<Longrightarrow>
   find_cfg cst c key0 = Some (Inr (findDefaults c key))"
  by (subst find_cfg.simps) simp

lemma find_no_fallback:
  assumes "realKey c key0 = Some key" "map_of (overrides c) key = None"
    "map_of (config c) key = None" "\<not> fallbackApplies cst c key"
  shows "find_cfg cst c key0 = Some (Inr (findDefaults c key))"
proof (cases "Contains key (keyDelm c)")
  case False
  with assms(1-3) show ?thesis by (simp add: find_plain)
next
  case True
  with assms(4) obtain p0 rest source where
    sp: "Split key (keyDelm c) = p0 # rest" and f: "find_cfg cst c p0 = Some (Inr source)"
    and nm: "\<not> (\<not> isNil source \<and> isMapKind source)"
    by (auto simp: fallbackApplies_def split: list.splits option.splits sum.splits)
  from find_dotted [OF assms(1-3) True sp f] nm show ?thesis by simp
qed

lemma Get_miss:
  "find_cfg cst c (ToLower k) = Some (Inr v) \<Longrightarrow> isNil v \<Longrightarrow>
   Split k (keyDelm c) = p0 # rest \<Longrightarrow> find_cfg cst c p0 = Some (Inr source) \<Longrightarrow>
   \<not> (\<not> isNil source \<and> isMapKind source) \<Longrightarrow> Get cst c k = Some (Inr VNil)"
  by (cases "isNil source") (simp_all add: Get_def)

lemma lower_abc: "ToLower ''a.b.c'' = ''a.b.c''"
  by code_simp

lemma split_abc: "Split ''a.b.c'' ''.'' = [''a'', ''b'', ''c'']"
  by code_simp

lemma contains_abc: "Contains ''a.b.c'' ''.''"
  by code_simp

section \<open>Precedence of the overrides layer\<close>

text \<open>
  C1, as amended. Let the lower-cased key \<open>k\<close> resolve to the canonical key \<open>k'\<close>, and let
  the overrides layer hold a non-nil value \<open>v\<close> under \<open>k'\<close>. Then, whatever the config and
  defaults layers hold, \<^verbatim>\<open>Get(k)\<close> returns \<open>v\<close> passed through the type switch of
  \<^verbatim>\<open>Get\<close>; the type witness is \<open>v\<close> itself, or the defaults entry of the lower-cased
  key when \<open>typeByDefValue\<close> is on. With \<open>typeByDefValue\<close> off and a value that its own
  conversion leaves unchanged, \<^verbatim>\<open>Get(k)\<close> returns \<open>v\<close> itself.
\<close>

theorem Get_precedence:
  assumes "realKey c (ToLower k) = Some k'"
    and "map_of (overrides c) k' = Some v"
    and "\<not> isNil v"
  shows "Get cst c k = Some (Inr (coerce cst (valType c (ToLower k) v) v)) \<and>
         (\<not> typeByDefValue c \<and> coerce cst v v = v \<longrightarrow> Get cst c k = Some (Inr v))"
proof -
  from assms(1,2) have "find_cfg cst c (ToLower k) = Some (Inr v)"
    by (rule find_override_hit)
  then have "Get cst c k = Some (Inr (coerce cst (valType c (ToLower k) v) v))"
    using assms(3) by (rule Get_found)
  then show ?thesis by (simp add: valType_def)
qed

theorem Get_precedence_witness:
  "realKey layered_store (ToLower ''K'') = Some ''k'' \<and>
   map_of (overrides layered_store) ''k'' = Some (VString ''from overrides'') \<and>
   map_of (config layered_store) ''k'' = Some (VString ''from config'') \<and>
   map_of (defaults layered_store) ''k'' = Some (VString ''from defaults'') \<and>
   \<not> isNil (VString ''from overrides'') \<and>
   \<not> typeByDefValue layered_store \<and>
   coerce ownCast (VString ''from overrides'') (VString ''from overrides'') =
     VString ''from overrides'' \<and>
   Get ownCast layered_store ''K'' = Some (Inr (VString ''from overrides''))"
proof -
  have h1: "realKey layered_store (ToLower ''K'') = Some ''k''" by code_simp
  have h2: "map_of (overrides layered_store) ''k'' = Some (VString ''from overrides'')"
    by code_simp
  have h3: "\<not> isNil (VString ''from overrides'')" by simp
  have h4: "\<not> typeByDefValue layered_store" by code_simp
  have h5: "coerce ownCast (VString ''from overrides'') (VString ''from overrides'') =
     VString ''from overrides''" by (simp add: ownCast_def)
  have h6: "map_of (config layered_store) ''k'' = Some (VString ''from config'')"
    by code_simp
  have h7: "map_of (defaults layered_store) ''k'' = Some (VString ''from defaults'')"
    by code_simp
  from Get_precedence [OF h1 h2 h3, of ownCast] h4 h5
  have "Get ownCast layered_store ''K'' = Some (Inr (VString ''from overrides''))"
    by blast
  with h1 h2 h3 h4 h5 h6 h7 show ?thesis by blast
qed

text \<open>
  The claim as stated fails. With all three layers holding the key, an int32 override
  comes back as a native int; and with \<open>typeByDefValue\<close> on, a string override comes back
  converted to the type of the defaults entry.
\<close>

theorem Get_precedence_counterexample:
  "map_of (overrides int32_store) ''k'' = Some (VInt KInt32 5) \<and>
   map_of (config int32_store) ''k'' = Some (VInt KInt32 6) \<and>
   map_of (defaults int32_store) ''k'' = Some (VInt KInt32 7) \<and>
   Get ownCast int32_store ''k'' = Some (Inr (VInt KInt 5)) \<and>
   Get ownCast int32_store ''k'' \<noteq> Some (Inr (VInt KInt32 5)) \<and>
   map_of (overrides typed_store) ''k'' = Some (VString ''abc'') \<and>
   map_of (config typed_store) ''k'' = Some (VString ''c'') \<and>
   map_of (defaults typed_store) ''k'' = Some (VInt KInt 0) \<and>
   Get ownCast typed_store ''k'' = Some (Inr (VInt KInt 0)) \<and>
   Get ownCast typed_store ''k'' \<noteq> Some (Inr (VString ''abc''))"
proof -
  have a: "Get ownCast int32_store ''k'' = Some (Inr (VInt KInt 5))" by code_simp
  have b: "Get ownCast typed_store ''k'' = Some (Inr (VInt KInt 0))" by code_simp
  have c: "map_of (overrides int32_store) ''k'' = Some (VInt KInt32 5) \<and>
   map_of (config int32_store) ''k'' = Some (VInt KInt32 6) \<and>
   map_of (defaults int32_store) ''k'' = Some (VInt KInt32 7)" by code_simp
  have d: "map_of (overrides typed_store) ''k'' = Some (VString ''abc'') \<and>
   map_of (config typed_store) ''k'' = Some (VString ''c'') \<and>
   map_of (defaults typed_store) ''k'' = Some (VInt KInt 0)" by code_simp
  from a b c d show ?thesis by simp
qed

section \<open>The path resolver\<close>

text \<open>
  C8. \<^verbatim>\<open>searchMap(root, segments)\<close>: with no segment it returns the root; with a first
  segment that is no key of the root it returns nil; with a first segment bound to a
  nested map (of string keys, or of interface keys converted by \<^verbatim>\<open>cast.ToStringMap\<close>)
  it continues in that map with the remaining segments; with a first segment bound to any
  other value it returns that value, whatever segments remain.
\<close>

theorem searchMap_contract:
  "searchMap cst root [] = VMap root \<and>
   (map_of root seg = None \<longrightarrow> searchMap cst root (seg # segs) = VNil) \<and>
   (map_of root seg = Some (VMap m) \<longrightarrow>
      searchMap cst root (seg # segs) = searchMap cst m segs) \<and>
   (map_of root seg = Some (VIMap im) \<longrightarrow>
      searchMap cst root (seg # segs) = searchMap cst (toStringMap cst (VIMap im)) segs) \<and>
   (map_of root seg = Some v \<and> \<not> isMapKind v \<longrightarrow> searchMap cst root (seg # segs) = v)"
  by (cases v) simp_all

theorem searchMap_contract_witness:
  "searchMap ownCast nested_root [] = VMap nested_root \<and>
   map_of nested_root ''zz'' = None \<and>
   searchMap ownCast nested_root [''zz'', ''b''] = VNil \<and>
   map_of nested_root ''a'' = Some (VMap [(''b'', VInt KInt 5)]) \<and>
   searchMap ownCast nested_root [''a'', ''b'', ''c''] = VInt KInt 5 \<and>
   map_of nested_root ''i'' = Some (VIMap [(VString ''b'', VInt KInt 7)]) \<and>
   searchMap ownCast nested_root [''i'', ''b''] = VInt KInt 7 \<and>
   map_of nested_root ''s'' = Some (VString ''x'') \<and> \<not> isMapKind (VString ''x'') \<and>
   searchMap ownCast nested_root [''s'', ''t'', ''u''] = VString ''x''"
proof -
  have h1: "map_of nested_root ''zz'' = None" by code_simp
  have h2: "map_of nested_root ''a'' = Some (VMap [(''b'', VInt KInt 5)])" by code_simp
  have h3: "map_of nested_root ''i'' = Some (VIMap [(VString ''b'', VInt KInt 7)])"
    by code_simp
  have h4: "map_of nested_root ''s'' = Some (VString ''x'') \<and> \<not> isMapKind (VString ''x'')"
    by code_simp
  have e1: "searchMap ownCast [(''b'', VInt KInt 5)] [''b'', ''c''] = VInt KInt 5"
    by code_simp
  have e2: "searchMap ownCast (toStringMap ownCast (VIMap [(VString ''b'', VInt KInt 7)])) [''b'']
    = VInt KInt 7" by code_simp
  from searchMap_contract [of ownCast nested_root "''zz''" "[''b'']"] h1
  have r1: "searchMap ownCast nested_root [] = VMap nested_root \<and>
    searchMap ownCast nested_root [''zz'', ''b''] = VNil" by blast
  from searchMap_contract [of ownCast nested_root "''a''" "[''b'', ''c'']" "[(''b'', VInt KInt 5)]"] h2 e1
  have r2: "searchMap ownCast nested_root [''a'', ''b'', ''c''] = VInt KInt 5" by simp
  from searchMap_contract [of ownCast nested_root "''i''" "[''b'']" _ "[(VString ''b'', VInt KInt 7)]"] h3 e2
  have r3: "searchMap ownCast nested_root [''i'', ''b''] = VInt KInt 7" by simp
  from searchMap_contract [of ownCast nested_root "''s''" "[''t'', ''u'']" _ _ "VString ''x''"] h4
  have r4: "searchMap ownCast nested_root [''s'', ''t'', ''u''] = VString ''x''" by blast
  from h1 h2 h3 h4 r1 r2 r3 r4 show ?thesis by blast
qed

section \<open>A scalar on the path\<close>

text \<open>
  C2, as amended. In a store with the delimiter \<open>.\<close>, no aliases, and no entry for
  \<open>a.b.c\<close> or \<open>a\<close> in the overrides and none for \<open>a.b.c\<close> in the config: when the config
  maps \<open>a\<close> to a map whose key \<open>b\<close> holds a non-nil value that is no map,
  \<^verbatim>\<open>Get("a.b.c")\<close> returns that value (through the type switch of \<^verbatim>\<open>Get\<close>), the
  segment \<open>c\<close> being ignored; when the config maps \<open>a\<close> itself to a value that is no map
  and the defaults hold no \<open>a.b.c\<close>, \<^verbatim>\<open>Get("a.b.c")\<close> returns nil.
\<close>

theorem Get_nested_scalar:
  assumes "keyDelm c = ''.''" and "aliases c = []"
    and "map_of (overrides c) ''a.b.c'' = None" and "map_of (config c) ''a.b.c'' = None"
    and "map_of (overrides c) ''a'' = None"
  shows "(map_of (config c) ''a'' = Some (VMap m) \<and> toStringMap cst (VMap m) = m \<and>
          map_of m ''b'' = Some v \<and> \<not> isMapKind v \<and> \<not> isNil v \<longrightarrow>
            Get cst c ''a.b.c'' = Some (Inr (coerce cst (valType c ''a.b.c'' v) v))) \<and>
         (map_of (config c) ''a'' = Some s \<and> \<not> isMapKind s \<and>
          map_of (defaults c) ''a.b.c'' = None \<longrightarrow>
            Get cst c ''a.b.c'' = Some (Inr VNil))"
proof (intro conjI impI)
  have rk: "realKey c ''a.b.c'' = Some ''a.b.c''" and rka: "realKey c ''a'' = Some ''a''"
    using assms(2) by (simp_all add: realKey_no_alias)
  have ct: "Contains ''a.b.c'' (keyDelm c)" and sp: "Split ''a.b.c'' (keyDelm c) = ''a'' # [''b'', ''c'']"
    using assms(1) by (simp_all add: contains_abc split_abc)
  {
    assume h: "map_of (config c) ''a'' = Some (VMap m) \<and> toStringMap cst (VMap m) = m \<and>
          map_of m ''b'' = Some v \<and> \<not> isMapKind v \<and> \<not> isNil v"
    from h have fa: "find_cfg cst c ''a'' = Some (Inr (VMap m))"
      using find_config_hit [OF rka assms(5)] by simp
    have sm: "searchMap cst m [''b'', ''c''] = v"
      using h by (cases v) simp_all
    from find_dotted [OF rk assms(3,4) ct sp fa] h sm
    have "find_cfg cst c (ToLower ''a.b.c'') = Some (Inr v)" by (simp add: lower_abc)
    from Get_found [OF this] h
    show "Get cst c ''a.b.c'' = Some (Inr (coerce cst (valType c ''a.b.c'' v) v))"
      by (simp add: lower_abc)
  }
  {
    assume h: "map_of (config c) ''a'' = Some s \<and> \<not> isMapKind s \<and>
          map_of (defaults c) ''a.b.c'' = None"
    from h have fa: "find_cfg cst c ''a'' = Some (Inr s)"
      using find_config_hit [OF rka assms(5)] by simp
    from find_dotted [OF rk assms(3,4) ct sp fa] h
    have f: "find_cfg cst c (ToLower ''a.b.c'') = Some (Inr VNil)"
      by (simp add: lower_abc findDefaults_def)
    from h have nm: "\<not> (\<not> isNil s \<and> isMapKind s)" by simp
    from Get_miss [OF f _ sp fa nm]
    show "Get cst c ''a.b.c'' = Some (Inr VNil)" by simp
  }
qed

theorem Get_nested_scalar_witness:
  "keyDelm nested_scalar_store = ''.'' \<and> aliases nested_scalar_store = [] \<and>
   map_of (overrides nested_scalar_store) ''a.b.c'' = None \<and>
   map_of (config nested_scalar_store) ''a.b.c'' = None \<and>
   map_of (overrides nested_scalar_store) ''a'' = None \<and>
   map_of (config nested_scalar_store) ''a'' = Some (VMap [(''b'', VInt KInt 5)]) \<and>
   toStringMap ownCast (VMap [(''b'', VInt KInt 5)]) = [(''b'', VInt KInt 5)] \<and>
   map_of [(''b'', VInt KInt 5)] ''b'' = Some (VInt KInt 5) \<and>
   \<not> isMapKind (VInt KInt 5) \<and> \<not> isNil (VInt KInt 5) \<and>
   Get ownCast nested_scalar_store ''a.b.c'' = Some (Inr (VInt KInt 5)) \<and>
   keyDelm scalar_store = ''.'' \<and> aliases scalar_store = [] \<and>
   map_of (overrides scalar_store) ''a.b.c'' = None \<and>
   map_of (config scalar_store) ''a.b.c'' = None \<and>
   map_of (overrides scalar_store) ''a'' = None \<and>
   map_of (config scalar_store) ''a'' = Some (VInt KInt 5) \<and>
   map_of (defaults scalar_store) ''a.b.c'' = None \<and>
   Get ownCast scalar_store ''a.b.c'' = Some (Inr VNil)"
proof -
  have n1: "keyDelm nested_scalar_store = ''.''" by code_simp
  have n2: "aliases nested_scalar_store = []" by code_simp
  have n3: "map_of (overrides nested_scalar_store) ''a.b.c'' = None" by code_simp
  have n4: "map_of (config nested_scalar_store) ''a.b.c'' = None" by code_simp
  have n5: "map_of (overrides nested_scalar_store) ''a'' = None" by code_simp
  have n6: "map_of (config nested_scalar_store) ''a'' = Some (VMap [(''b'', VInt KInt 5)]) \<and>
    toStringMap ownCast (VMap [(''b'', VInt KInt 5)]) = [(''b'', VInt KInt 5)] \<and>
    map_of [(''b'', VInt KInt 5)] ''b'' = Some (VInt KInt 5) \<and>
    \<not> isMapKind (VInt KInt 5) \<and> \<not> isNil (VInt KInt 5)" by code_simp
  have n7: "coerce ownCast (valType nested_scalar_store ''a.b.c'' (VInt KInt 5)) (VInt KInt 5)
    = VInt KInt 5" by code_simp
  have s1: "keyDelm scalar_store = ''.''" by code_simp
  have s2: "aliases scalar_store = []" by code_simp
  have s3: "map_of (overrides scalar_store) ''a.b.c'' = None" by code_simp
  have s4: "map_of (config scalar_store) ''a.b.c'' = None" by code_simp
  have s5: "map_of (overrides scalar_store) ''a'' = None" by code_simp
  have s6: "map_of (config scalar_store) ''a'' = Some (VInt KInt 5) \<and>
    \<not> isMapKind (VInt KInt 5) \<and> map_of (defaults scalar_store) ''a.b.c'' = None"
    by code_simp
  from Get_nested_scalar [where m = "[(''b'', VInt KInt 5)]" and cst = ownCast and v = "VInt KInt 5",
      OF n1 n2 n3 n4 n5] n6 n7
  have r1: "Get ownCast nested_scalar_store ''a.b.c'' = Some (Inr (VInt KInt 5))" by simp
  from Get_nested_scalar [where s = "VInt KInt 5" and cst = ownCast, OF s1 s2 s3 s4 s5] s6
  have r2: "Get ownCast scalar_store ''a.b.c'' = Some (Inr VNil)" by blast
  from n1 n2 n3 n4 n5 n6 s1 s2 s3 s4 s5 s6 r1 r2 show ?thesis by blast
qed

text \<open>
  The claim as stated fails: with the config \<open>{"a": 5}\<close> and nothing else stored,
  \<^verbatim>\<open>Get("a.b.c")\<close> returns nil, not 5. Both \<^verbatim>\<open>find\<close> and \<^verbatim>\<open>Get\<close> descend only
  when the first segment resolves to a map.
\<close>

theorem Get_top_scalar_counterexample:
  "map_of (config scalar_store) ''a'' = Some (VInt KInt 5) \<and>
   map_of (overrides scalar_store) ''a.b.c'' = None \<and>
   map_of (config scalar_store) ''a.b.c'' = None \<and>
   map_of (defaults scalar_store) ''a.b.c'' = None \<and>
   Get ownCast scalar_store ''a.b.c'' = Some (Inr VNil) \<and>
   Get ownCast scalar_store ''a.b.c'' \<noteq> Some (Inr (VInt KInt 5))"
proof -
  have "Get ownCast scalar_store ''a.b.c'' = Some (Inr VNil)" by code_simp
  moreover have "map_of (config scalar_store) ''a'' = Some (VInt KInt 5) \<and>
   map_of (overrides scalar_store) ''a.b.c'' = None \<and>
   map_of (config scalar_store) ''a.b.c'' = None \<and>
   map_of (defaults scalar_store) ''a.b.c'' = None" by code_simp
  ultimately show ?thesis by simp
qed

section \<open>Keys set only in the defaults\<close>

text \<open>
  C3, as amended. Let the lower-cased key \<open>k\<close> resolve to the canonical key \<open>k'\<close>, with
  no entry for \<open>k'\<close> in the overrides and the config and a non-nil entry \<open>v\<close> in the
  defaults, and let the dotted-path step not apply to \<open>k'\<close> (\<open>k'\<close> has no delimiter, or
  its first segment resolves to nil or to a value that is no map). Then \<^verbatim>\<open>Get(k)\<close>
  returns \<open>v\<close> passed through the type switch of \<^verbatim>\<open>Get\<close> (\<open>v\<close> itself when
  \<open>typeByDefValue\<close> is off and the conversion of \<open>v\<close> to its own type leaves it
  unchanged), and \<^verbatim>\<open>InConfig\<close> of the lower-cased key is false.
\<close>

theorem Get_default_only:
  assumes "realKey c (ToLower k) = Some k'"
    and "map_of (overrides c) k' = None"
    and "map_of (config c) k' = None"
    and "map_of (defaults c) k' = Some v"
    and "\<not> isNil v"
    and "\<not> fallbackApplies cst c k'"
  shows "Get cst c k = Some (Inr (coerce cst (valType c (ToLower k) v) v)) \<and>
         (\<not> typeByDefValue c \<and> coerce cst v v = v \<longrightarrow> Get cst c k = Some (Inr v)) \<and>
         InConfig c (ToLower k) = Some False"
proof -
  from find_no_fallback [OF assms(1,2,3,6)] assms(4)
  have "find_cfg cst c (ToLower k) = Some (Inr v)" by (simp add: findDefaults_def)
  then have g: "Get cst c k = Some (Inr (coerce cst (valType c (ToLower k) v) v))"
    using assms(5) by (rule Get_found)
  have "InConfig c (ToLower k) = Some False"
    using assms(1,3) by (simp add: InConfig_def)
  with g show ?thesis by (simp add: valType_def)
qed

theorem Get_default_only_witness:
  "realKey default_only_store (ToLower ''Port'') = Some ''port'' \<and>
   map_of (overrides default_only_store) ''port'' = None \<and>
   map_of (config default_only_store) ''port'' = None \<and>
   map_of (defaults default_only_store) ''port'' = Some (VInt KInt 8080) \<and>
   \<not> isNil (VInt KInt 8080) \<and>
   \<not> fallbackApplies ownCast default_only_store ''port'' \<and>
   \<not> typeByDefValue default_only_store \<and>
   coerce ownCast (VInt KInt 8080) (VInt KInt 8080) = VInt KInt 8080 \<and>
   Get ownCast default_only_store ''Port'' = Some (Inr (VInt KInt 8080)) \<and>
   InConfig default_only_store (ToLower ''Port'') = Some False"
proof -
  have h1: "realKey default_only_store (ToLower ''Port'') = Some ''port''" by code_simp
  have h2: "map_of (overrides default_only_store) ''port'' = None" by code_simp
  have h3: "map_of (config default_only_store) ''port'' = None" by code_simp
  have h4: "map_of (defaults default_only_store) ''port'' = Some (VInt KInt 8080)" by code_simp
  have h5: "\<not> isNil (VInt KInt 8080)" by simp
  have h6: "\<not> fallbackApplies ownCast default_only_store ''port''" by code_simp
  have h7: "\<not> typeByDefValue default_only_store \<and>
    coerce ownCast (VInt KInt 8080) (VInt KInt 8080) = VInt KInt 8080" by code_simp
  from Get_default_only [OF h1 h2 h3 h4 h5 h6] h7
  have "Get ownCast default_only_store ''Port'' = Some (Inr (VInt KInt 8080)) \<and>
    InConfig default_only_store (ToLower ''Port'') = Some False" by blast
  with h1 h2 h3 h4 h5 h6 h7 show ?thesis by blast
qed

text \<open>
  The claim as stated fails for a dotted key: with \<open>a.b\<close> stored in the defaults only and
  the config mapping \<open>a\<close> to \<open>{"b": "c"}\<close>, \<^verbatim>\<open>Get("a.b")\<close> returns \<open>"c"\<close>: the
  dotted-path step of \<^verbatim>\<open>find\<close> comes before the defaults layer.
\<close>

theorem Get_default_only_counterexample:
  "realKey shadowed_default_store (ToLower ''a.b'') = Some ''a.b'' \<and>
   map_of (overrides shadowed_default_store) ''a.b'' = None \<and>
   map_of (config shadowed_default_store) ''a.b'' = None \<and>
   map_of (defaults shadowed_default_store) ''a.b'' = Some (VString ''d'') \<and>
   Get ownCast shadowed_default_store ''a.b'' = Some (Inr (VString ''c'')) \<and>
   Get ownCast shadowed_default_store ''a.b'' \<noteq> Some (Inr (VString ''d''))"
proof -
  have "Get ownCast shadowed_default_store ''a.b'' = Some (Inr (VString ''c''))" by code_simp
  moreover have "realKey shadowed_default_store (ToLower ''a.b'') = Some ''a.b'' \<and>
   map_of (overrides shadowed_default_store) ''a.b'' = None \<and>
   map_of (config shadowed_default_store) ''a.b'' = None \<and>
   map_of (defaults shadowed_default_store) ''a.b'' = Some (VString ''d'')" by code_simp
  ultimately show ?thesis by simp
qed

section \<open>Registering aliases\<close>

text \<open>
  Adding the alias \<open>la\<close> (so far no alias) with target \<open>lk\<close> keeps every resolution that
  does not end in \<open>la\<close>, and sends those that did end in \<open>la\<close> on to where \<open>lk\<close>
  resolves.
\<close>

lemma realKey_after_insert:
  assumes rk: "realKey c key = Some r"
    and free: "map_of (aliases c) la = None"
    and ne: "r \<noteq> la"
    and upd: "aliases c' = AList.update la lk (aliases c)"
  shows "realKey c' key = Some r"
proof -
  have "c = c \<longrightarrow> r \<noteq> la \<longrightarrow> realKey c' key = Some r"
  proof (rule realKey.raw_induct
      [where P = "\<lambda>d key r. d = c \<longrightarrow> r \<noteq> la \<longrightarrow> realKey c' key = Some r", OF _ rk])
    fix f :: "Config \<Rightarrow> string \<Rightarrow> string option" and d :: Config and key r :: string
    assume IH: "\<And>d key r. f d key = Some r \<Longrightarrow> d = c \<longrightarrow> r \<noteq> la \<longrightarrow> realKey c' key = Some r"
      and step: "(case map_of (aliases d) key of None \<Rightarrow> Some key | Some nk \<Rightarrow> f d nk) = Some r"
    show "d = c \<longrightarrow> r \<noteq> la \<longrightarrow> realKey c' key = Some r"
    proof (intro impI)
      assume d: "d = c" and r: "r \<noteq> la"
      show "realKey c' key = Some r"
      proof (cases "map_of (aliases c) key")
        case None
        with step d have "key = r" by simp
        with None r upd have "map_of (aliases c') key = None"
          by (simp add: update_conv')
        with \<open>key = r\<close> show ?thesis by (simp add: realKey_no_alias)
      next
        case (Some nk)
        with free have "key \<noteq> la" by auto
        with Some upd have a: "map_of (aliases c') key = Some nk"
          by (simp add: update_conv')
        from Some step d have "f c nk = Some r" by simp
        with IH r have "realKey c' nk = Some r" by blast
        with a show ?thesis by (simp add: realKey_step)
      qed
    qed
  qed
  with ne show ?thesis by simp
qed

lemma realKey_through_new_alias:
  assumes rk: "realKey c key = Some la"
    and free: "map_of (aliases c) la = None"
    and upd: "aliases c' = AList.update la lk (aliases c)"
    and tgt: "realKey c' lk = Some r"
  shows "realKey c' key = Some r"
proof -
  have "c = c \<longrightarrow> la = la \<longrightarrow> realKey c' key = Some r"
  proof (rule realKey.raw_induct
      [where P = "\<lambda>d key x. d = c \<longrightarrow> x = la \<longrightarrow> realKey c' key = Some r", OF _ rk])
    fix f :: "Config \<Rightarrow> string \<Rightarrow> string option" and d :: Config and key x :: string
    assume IH: "\<And>d key x. f d key = Some x \<Longrightarrow> d = c \<longrightarrow> x = la \<longrightarrow> realKey c' key = Some r"
      and step: "(case map_of (aliases d) key of None \<Rightarrow> Some key | Some nk \<Rightarrow> f d nk) = Some x"
    show "d = c \<longrightarrow> x = la \<longrightarrow> realKey c' key = Some r"
    proof (intro impI)
      assume d: "d = c" and x: "x = la"
      show "realKey c' key = Some r"
      proof (cases "map_of (aliases c) key")
        case None
        with step d x have "key = la" by simp
        with upd have "map_of (aliases c') key = Some lk" by (simp add: update_conv')
        with tgt show ?thesis by (simp add: realKey_step)
      next
        case (Some nk)
        with free have "key \<noteq> la" by auto
        with Some upd have a: "map_of (aliases c') key = Some nk"
          by (simp add: update_conv')
        from Some step d have "f c nk = Some x" by simp
        with IH x have "realKey c' nk = Some r" by blast
        with a show ?thesis by (simp add: realKey_step)
      qed
    qed
  qed
  then show ?thesis by simp
qed

lemma registerAlias_rejected:
  "realKey c key = Some rk \<Longrightarrow> ToLower alias = key \<or> ToLower alias = rk \<Longrightarrow>
   registerAlias c alias key = Some c"
  by (auto simp: registerAlias_def Let_def)

lemma registerAlias_accepted:
  "realKey c key = Some rk \<Longrightarrow> ToLower alias \<noteq> key \<Longrightarrow> ToLower alias \<noteq> rk \<Longrightarrow>
   map_of (aliases c) (ToLower alias) = None \<Longrightarrow>
   registerAlias c alias key =
     Some (c\<lparr> config := moveEntry (ToLower alias) key (config c),
              defaults := moveEntry (ToLower alias) key (defaults c),
              overrides := moveEntry (ToLower alias) key (overrides c),
              aliases := AList.update (ToLower alias) key (aliases c) \<rparr>)"
  by (simp add: registerAlias_def Let_def)

lemma registerAlias_aliases:
  assumes "registerAlias c alias key = Some c'"
  shows "c' = c \<or>
    (\<exists>rk. realKey c key = Some rk \<and> ToLower alias \<noteq> rk \<and>
       map_of (aliases c) (ToLower alias) = None \<and>
       aliases c' = AList.update (ToLower alias) key (aliases c))"
proof -
  from assms obtain rk where rk: "realKey c key = Some rk"
    by (auto simp: registerAlias_def Let_def split: Option.bind_splits)
  with assms show ?thesis
    by (auto simp: registerAlias_def Let_def split: if_splits)
qed

lemma registerAlias_total:
  assumes tot: "\<forall>k. realKey c k \<noteq> None" and reg: "registerAlias c alias key = Some c'"
  shows "realKey c' k \<noteq> None"
proof -
  from registerAlias_aliases [OF reg] show ?thesis
  proof
    assume "c' = c"
    with tot show ?thesis by simp
  next
    assume "\<exists>rk. realKey c key = Some rk \<and> ToLower alias \<noteq> rk \<and>
       map_of (aliases c) (ToLower alias) = None \<and>
       aliases c' = AList.update (ToLower alias) key (aliases c)"
    then obtain rk where rk: "realKey c key = Some rk" and ne: "ToLower alias \<noteq> rk"
      and free: "map_of (aliases c) (ToLower alias) = None"
      and upd: "aliases c' = AList.update (ToLower alias) key (aliases c)" by blast
    from ne have ne': "rk \<noteq> ToLower alias" by simp
    from realKey_after_insert [OF rk free ne' upd]
    have tgt: "realKey c' key = Some rk" .
    from tot have "realKey c k \<noteq> None" by (rule spec)
    then obtain r where r: "realKey c k = Some r" by (cases "realKey c k") simp_all
    show ?thesis
    proof (cases "r = ToLower alias")
      case True
      with r have "realKey c k = Some (ToLower alias)" by simp
      from realKey_through_new_alias [OF this free upd tgt] show ?thesis by simp
    next
      case False
      from realKey_after_insert [OF r free False upd] show ?thesis by simp
    qed
  qed
qed

lemma alias_resolves_alike:
  assumes free: "map_of (aliases c) (ToLower a) = None"
    and rk: "realKey c (ToLower k) = Some r"
  shows "\<exists>c1. RegisterAlias c a k = Some c1 \<and> realKey c1 (ToLower a) = Some r \<and>
           realKey c1 (ToLower k) = Some r \<and> typeByDefValue c1 = typeByDefValue c"
proof (cases "ToLower a = ToLower k \<or> ToLower a = r")
  case True
  with rk have "RegisterAlias c a k = Some c"
    by (simp add: RegisterAlias_def registerAlias_rejected)
  moreover from True rk free have "realKey c (ToLower a) = Some r"
    by (auto simp: realKey_no_alias)
  ultimately show ?thesis using rk by simp
next
  case False
  let ?c1 = "c\<lparr> config := moveEntry (ToLower a) (ToLower k) (config c),
              defaults := moveEntry (ToLower a) (ToLower k) (defaults c),
              overrides := moveEntry (ToLower a) (ToLower k) (overrides c),
              aliases := AList.update (ToLower a) (ToLower k) (aliases c) \<rparr>"
  from False rk free have reg: "RegisterAlias c a k = Some ?c1"
    by (simp add: RegisterAlias_def registerAlias_accepted)
  have upd: "aliases ?c1 = AList.update (ToLower a) (ToLower k) (aliases c)" by simp
  from False have ne: "r \<noteq> ToLower a" by auto
  from realKey_after_insert [OF rk free ne upd]
  have tgt: "realKey ?c1 (ToLower k) = Some r" .
  have "map_of (aliases ?c1) (ToLower a) = Some (ToLower k)" by (simp add: update_conv')
  with tgt have "realKey ?c1 (ToLower a) = Some r" by (simp add: realKey_step)
  with reg tgt show ?thesis by simp
qed

lemma Set_then_Get:
  assumes w: "realKey c (ToLower k1) = Some r" and g: "realKey c (ToLower k2) = Some r"
    and nn: "\<not> isNil v"
  shows "\<exists>c2. Set c k1 v = Some c2 \<and>
           Get cst c2 k2 = Some (Inr (coerce cst (valType c2 (ToLower k2) v) v)) \<and>
           typeByDefValue c2 = typeByDefValue c"
proof -
  let ?c2 = "c\<lparr>overrides := AList.update r v (overrides c)\<rparr>"
  from w have s: "Set c k1 v = Some ?c2" by (simp add: Set_def)
  have "aliases ?c2 = aliases c" by simp
  then have "realKey ?c2 (ToLower k2) = realKey c (ToLower k2)" by (rule realKey_aliases_cong)
  with g have g2: "realKey ?c2 (ToLower k2) = Some r" by simp
  have o: "map_of (overrides ?c2) r = Some v" by (simp add: update_conv')
  from find_override_hit [OF g2 o]
  have "find_cfg cst ?c2 (ToLower k2) = Some (Inr v)" .
  from Get_found [OF this nn] s show ?thesis by simp
qed

lemma lower_x: "ToLower ''x'' = ''x''"
  by code_simp

lemma lower_y: "ToLower ''y'' = ''y''"
  by code_simp

lemma xy_scenario:
  assumes e: "aliases c = []"
  shows "\<exists>c1. RegisterAlias c ''x'' ''y'' = Some c1 \<and> aliases c1 = [(''x'', ''y'')] \<and>
            RegisterAlias c1 ''y'' ''x'' = Some c1 \<and>
            (\<forall>k. \<exists>r. realKey c1 k = Some r \<and> map_of (aliases c1) r = None)"
proof -
  let ?c1 = "c\<lparr> config := moveEntry ''x'' ''y'' (config c),
              defaults := moveEntry ''x'' ''y'' (defaults c),
              overrides := moveEntry ''x'' ''y'' (overrides c),
              aliases := AList.update ''x'' ''y'' (aliases c) \<rparr>"
  from e have ry: "realKey c ''y'' = Some ''y''" by (simp add: realKey_no_alias)
  from e have "registerAlias c ''x'' ''y'' = Some ?c1"
    using registerAlias_accepted [OF ry, of "''x''"] by (simp add: lower_x)
  then have r1: "RegisterAlias c ''x'' ''y'' = Some ?c1"
    by (simp add: RegisterAlias_def lower_y)
  from e have a1: "aliases ?c1 = [(''x'', ''y'')]" by simp
  then have y1: "realKey ?c1 ''y'' = Some ''y''" by (simp add: realKey_no_alias)
  from a1 have "realKey ?c1 ''x'' = realKey ?c1 ''y''" by (simp add: realKey_step)
  with y1 have x1: "realKey ?c1 ''x'' = Some ''y''" by simp
  then have "registerAlias ?c1 ''y'' ''x'' = Some ?c1"
    by (rule registerAlias_rejected) (simp add: lower_y)
  then have r2: "RegisterAlias ?c1 ''y'' ''x'' = Some ?c1"
    by (simp add: RegisterAlias_def lower_x)
  have tot: "\<exists>r. realKey ?c1 k = Some r \<and> map_of (aliases ?c1) r = None" for k
  proof (cases "k = ''x''")
    case True
    with x1 a1 show ?thesis by simp
  next
    case False
    with a1 have "realKey ?c1 k = Some k" by (simp add: realKey_no_alias)
    with False a1 show ?thesis by simp
  qed
  from r1 a1 r2 tot show ?thesis by blast
qed

text \<open>
  C5. A registration whose target resolves back to the alias is skipped: the call
  returns (no error) and the store, the alias table included, is as before. From any
  store without aliases, \<^verbatim>\<open>RegisterAlias("x", "y")\<close> is applied and the following
  \<^verbatim>\<open>RegisterAlias("y", "x")\<close> is skipped, and afterwards every key resolves to a key
  that is no alias. In general a registration keeps resolution total: if \<^verbatim>\<open>realKey\<close>
  returned on every key before the call, it does so after it.
\<close>

theorem circular_alias_rejected:
  "(realKey c (ToLower key) = Some (ToLower alias) \<longrightarrow> RegisterAlias c alias key = Some c) \<and>
   (aliases c = [] \<longrightarrow>
      (\<exists>c1. RegisterAlias c ''x'' ''y'' = Some c1 \<and> aliases c1 = [(''x'', ''y'')] \<and>
            RegisterAlias c1 ''y'' ''x'' = Some c1 \<and>
            (\<forall>k. \<exists>r. realKey c1 k = Some r \<and> map_of (aliases c1) r = None))) \<and>
   ((\<forall>k. realKey c k \<noteq> None) \<and> RegisterAlias c alias key = Some c' \<longrightarrow>
      (\<forall>k. realKey c' k \<noteq> None))"
proof (intro conjI impI allI)
  assume "realKey c (ToLower key) = Some (ToLower alias)"
  then show "RegisterAlias c alias key = Some c"
    unfolding RegisterAlias_def by (rule registerAlias_rejected) simp
next
  assume "aliases c = []"
  then show "\<exists>c1. RegisterAlias c ''x'' ''y'' = Some c1 \<and> aliases c1 = [(''x'', ''y'')] \<and>
            RegisterAlias c1 ''y'' ''x'' = Some c1 \<and>
            (\<forall>k. \<exists>r. realKey c1 k = Some r \<and> map_of (aliases c1) r = None)"
    by (rule xy_scenario)
next
  fix k
  assume h: "(\<forall>k. realKey c k \<noteq> None) \<and> RegisterAlias c alias key = Some c'"
  then have "registerAlias c alias (ToLower key) = Some c'" by (simp add: RegisterAlias_def)
  with h show "realKey c' k \<noteq> None" using registerAlias_total by blast
qed

theorem circular_alias_rejected_witness:
  "realKey chain_store (ToLower ''a'') = Some (ToLower ''C'') \<and>
   RegisterAlias chain_store ''C'' ''a'' = Some chain_store \<and>
   aliases New = [] \<and>
   (\<exists>c1. RegisterAlias New ''x'' ''y'' = Some c1 \<and> aliases c1 = [(''x'', ''y'')] \<and>
         RegisterAlias c1 ''y'' ''x'' = Some c1 \<and>
         (\<forall>k. \<exists>r. realKey c1 k = Some r \<and> map_of (aliases c1) r = None)) \<and>
   (\<forall>k. realKey New k \<noteq> None) \<and>
   RegisterAlias New ''x'' ''y'' = Some (New\<lparr>aliases := [(''x'', ''y'')]\<rparr>) \<and>
   (\<forall>k. realKey (New\<lparr>aliases := [(''x'', ''y'')]\<rparr>) k \<noteq> None)"
proof -
  have h1: "realKey chain_store (ToLower ''a'') = Some (ToLower ''C'')" by code_simp
  have h2: "aliases New = []" by code_simp
  have h3: "\<forall>k. realKey New k \<noteq> None" by (simp add: realKey_no_alias h2)
  have h4: "RegisterAlias New ''x'' ''y'' = Some (New\<lparr>aliases := [(''x'', ''y'')]\<rparr>)"
    by code_simp
  from circular_alias_rejected [of chain_store "''a''" "''C''"] h1
  have r1: "RegisterAlias chain_store ''C'' ''a'' = Some chain_store" by blast
  from circular_alias_rejected [of New "''y''" "''x''" "New\<lparr>aliases := [(''x'', ''y'')]\<rparr>"] h2 h3 h4
  have r2: "(\<exists>c1. RegisterAlias New ''x'' ''y'' = Some c1 \<and> aliases c1 = [(''x'', ''y'')] \<and>
         RegisterAlias c1 ''y'' ''x'' = Some c1 \<and>
         (\<forall>k. \<exists>r. realKey c1 k = Some r \<and> map_of (aliases c1) r = None)) \<and>
     (\<forall>k. realKey (New\<lparr>aliases := [(''x'', ''y'')]\<rparr>) k \<noteq> None)" by blast
  from h1 r1 h2 h3 h4 r2 show ?thesis by blast
qed

section \<open>Alias transparency\<close>

text \<open>
  C9, as amended. Let the lower-cased name \<open>a\<close> be no alias yet, and let resolution of
  the lower-cased name \<open>k\<close> return. After \<^verbatim>\<open>RegisterAlias(a, k)\<close>, a \<^verbatim>\<open>Set\<close> of a
  non-nil value \<open>v\<close> through either name is read back by \<^verbatim>\<open>Get\<close> through the other
  name, passed through the type switch of \<^verbatim>\<open>Get\<close>; with \<open>typeByDefValue\<close> off and a
  value that its own conversion leaves unchanged, \<^verbatim>\<open>Get\<close> returns \<open>v\<close> itself.
\<close>

theorem alias_transparency:
  assumes "map_of (aliases c) (ToLower a) = None"
    and "realKey c (ToLower k) = Some r"
    and "\<not> isNil v"
  shows "\<exists>c1. RegisterAlias c a k = Some c1 \<and>
     (\<exists>c2. Set c1 a v = Some c2 \<and>
        Get cst c2 k = Some (Inr (coerce cst (valType c2 (ToLower k) v) v)) \<and>
        (\<not> typeByDefValue c \<and> coerce cst v v = v \<longrightarrow> Get cst c2 k = Some (Inr v))) \<and>
     (\<exists>c3. Set c1 k v = Some c3 \<and>
        Get cst c3 a = Some (Inr (coerce cst (valType c3 (ToLower a) v) v)) \<and>
        (\<not> typeByDefValue c \<and> coerce cst v v = v \<longrightarrow> Get cst c3 a = Some (Inr v)))"
proof -
  from alias_resolves_alike [OF assms(1,2)] obtain c1 where
    reg: "RegisterAlias c a k = Some c1" and ra: "realKey c1 (ToLower a) = Some r"
    and rk: "realKey c1 (ToLower k) = Some r" and t1: "typeByDefValue c1 = typeByDefValue c"
    by blast
  from Set_then_Get [OF ra rk assms(3), of cst] obtain c2 where
    s2: "Set c1 a v = Some c2"
    and g2: "Get cst c2 k = Some (Inr (coerce cst (valType c2 (ToLower k) v) v))"
    and t2: "typeByDefValue c2 = typeByDefValue c1" by blast
  from Set_then_Get [OF rk ra assms(3), of cst] obtain c3 where
    s3: "Set c1 k v = Some c3"
    and g3: "Get cst c3 a = Some (Inr (coerce cst (valType c3 (ToLower a) v) v))"
    and t3: "typeByDefValue c3 = typeByDefValue c1" by blast
  from g2 t1 t2 have p2: "\<not> typeByDefValue c \<and> coerce cst v v = v \<longrightarrow> Get cst c2 k = Some (Inr v)"
    by (simp add: valType_def)
  from g3 t1 t3 have p3: "\<not> typeByDefValue c \<and> coerce cst v v = v \<longrightarrow> Get cst c3 a = Some (Inr v)"
    by (simp add: valType_def)
  from reg s2 g2 p2 s3 g3 p3 show ?thesis by blast
qed

theorem alias_transparency_witness:
  "map_of (aliases New) (ToLower ''new'') = None \<and>
   realKey New (ToLower ''old'') = Some ''old'' \<and>
   \<not> isNil (VString ''v'') \<and> \<not> typeByDefValue New \<and>
   coerce ownCast (VString ''v'') (VString ''v'') = VString ''v'' \<and>
   (\<exists>c1. RegisterAlias New ''new'' ''old'' = Some c1 \<and>
      (\<exists>c2. Set c1 ''new'' (VString ''v'') = Some c2 \<and>
         Get ownCast c2 ''old'' = Some (Inr (VString ''v''))) \<and>
      (\<exists>c3. Set c1 ''old'' (VString ''v'') = Some c3 \<and>
         Get ownCast c3 ''new'' = Some (Inr (VString ''v''))))"
proof -
  have h1: "map_of (aliases New) (ToLower ''new'') = None" by code_simp
  have h2: "realKey New (ToLower ''old'') = Some ''old''" by code_simp
  have h3: "\<not> isNil (VString ''v'')" by simp
  have h4: "\<not> typeByDefValue New \<and>
    coerce ownCast (VString ''v'') (VString ''v'') = VString ''v''" by code_simp
  from alias_transparency [OF h1 h2 h3, of ownCast] h4
  have "\<exists>c1. RegisterAlias New ''new'' ''old'' = Some c1 \<and>
      (\<exists>c2. Set c1 ''new'' (VString ''v'') = Some c2 \<and>
         Get ownCast c2 ''old'' = Some (Inr (VString ''v''))) \<and>
      (\<exists>c3. Set c1 ''old'' (VString ''v'') = Some c3 \<and>
         Get ownCast c3 ''new'' = Some (Inr (VString ''v'')))" by blast
  with h1 h2 h3 h4 show ?thesis by blast
qed

text \<open>
  The claim as stated fails when the new name is an alias already: after
  \<^verbatim>\<open>RegisterAlias("new", "other")\<close>, the call \<^verbatim>\<open>RegisterAlias("new", "old")\<close> changes
  nothing, a \<^verbatim>\<open>Set\<close> through \<open>new\<close> is stored under \<open>other\<close>, and \<^verbatim>\<open>Get("old")\<close>
  returns nil; likewise a \<^verbatim>\<open>Set\<close> through \<open>old\<close> is not seen by \<^verbatim>\<open>Get("new")\<close>.
\<close>

theorem alias_transparency_counterexample:
  "Option.bind (RegisterAlias New ''new'' ''other'') (\<lambda>c0.
     Option.bind (RegisterAlias c0 ''new'' ''old'') (\<lambda>c1.
       Option.bind (Set c1 ''new'' (VString ''v'')) (\<lambda>c2. Get ownCast c2 ''old''))) =
     Some (Inr VNil) \<and>
   Option.bind (RegisterAlias New ''new'' ''other'') (\<lambda>c0.
     Option.bind (RegisterAlias c0 ''new'' ''old'') (\<lambda>c1.
       Option.bind (Set c1 ''old'' (VString ''v'')) (\<lambda>c2. Get ownCast c2 ''new''))) =
     Some (Inr VNil)"
  by code_simp

section \<open>Case of the keys\<close>

text \<open>
  What does hold of the keys' case: \<^verbatim>\<open>Set\<close>, \<^verbatim>\<open>SetDefault\<close> and the first lookup of
  \<^verbatim>\<open>Get\<close> see the key only through \<^verbatim>\<open>strings.ToLower\<close>.
\<close>

lemma Set_case_insensitive:
  "ToLower k = ToLower k' \<Longrightarrow> Set c k v = Set c k' v \<and> SetDefault c k v = SetDefault c k' v"
  by (simp add: Set_def SetDefault_def)

text \<open>
  C4. The claim asks that every operation lower-cases its key before any lookup. The code
  does not do so in two places. \<^verbatim>\<open>InConfig\<close> hands its key to \<^verbatim>\<open>realKey\<close> without
  \<^verbatim>\<open>strings.ToLower\<close>: with the config \<open>{"a": 1}\<close>, \<^verbatim>\<open>InConfig("a")\<close> is true and
  \<^verbatim>\<open>InConfig("A")\<close> is false. The second fallback of \<^verbatim>\<open>Get\<close> splits the key as given:
  with the config \<open>{"a": {"B": 1}}\<close>, \<^verbatim>\<open>Get("a.B")\<close> returns 1 and \<^verbatim>\<open>Get("a.b")\<close>
  returns nil.
\<close>

theorem case_normalisation_gaps:
  "InConfig config_a_store ''a'' = Some True \<and>
   InConfig config_a_store ''A'' = Some False \<and>
   Get ownCast nested_upper_store ''a.B'' = Some (Inr (VInt KInt 1)) \<and>
   Get ownCast nested_upper_store ''a.b'' = Some (Inr VNil)"
  by code_simp

section \<open>Migration on registration\<close>

text \<open>One layer of the migration: the entry leaves the alias and arrives at the target.\<close>

lemma moveEntry_moves:
  "alias \<noteq> key \<Longrightarrow> map_of m alias = Some v \<Longrightarrow>
   map_of (moveEntry alias key m) key = Some v \<and> map_of (moveEntry alias key m) alias = None"
  by (simp add: moveEntry_def update_conv' delete_conv')

text \<open>
  C7. The claim asks that the entries of a newly registered alias move to the canonical
  key, so that they stay reachable. The code moves them to the target as given. After
  \<^verbatim>\<open>Set("a", 1)\<close>, \<^verbatim>\<open>RegisterAlias("b", "c")\<close> and \<^verbatim>\<open>RegisterAlias("a", "b")\<close>, the
  value sits under \<open>b\<close> in the overrides while \<open>a\<close> and \<open>b\<close> resolve to \<open>c\<close>:
  \<^verbatim>\<open>Get\<close> returns nil for each of the three names.
\<close>

theorem migration_strands_value:
  "Option.bind (Set New ''a'' (VInt KInt 1)) (\<lambda>c1.
     Option.bind (RegisterAlias c1 ''b'' ''c'') (\<lambda>c2. RegisterAlias c2 ''a'' ''b'')) =
     Some stranded_store \<and>
   realKey stranded_store ''a'' = Some ''c'' \<and>
   map_of (overrides stranded_store) ''c'' = None \<and>
   map_of (overrides stranded_store) ''b'' = Some (VInt KInt 1) \<and>
   Get ownCast stranded_store ''a'' = Some (Inr VNil) \<and>
   Get ownCast stranded_store ''b'' = Some (Inr VNil) \<and>
   Get ownCast stranded_store ''c'' = Some (Inr VNil)"
  by code_simp

section \<open>Termination of the lookup\<close>

text \<open>
  The store after \<^verbatim>\<open>RegisterAlias("a", "a.b")\<close> on the empty store: \<^verbatim>\<open>find("a")\<close>
  resolves \<open>a\<close> to \<open>a.b\<close>, finds no entry, splits \<open>a.b\<close> and calls \<^verbatim>\<open>find("a")\<close>
  again.
\<close>

lemma dotted_alias_reachable:
  "RegisterAlias New ''a'' ''a.b'' = Some dotted_alias_store"
  by code_simp

lemma dotted_alias_step:
  "realKey dotted_alias_store ''a'' = Some ''a.b'' \<and>
   map_of (overrides dotted_alias_store) ''a.b'' = None \<and>
   map_of (config dotted_alias_store) ''a.b'' = None \<and>
   Contains ''a.b'' (keyDelm dotted_alias_store) \<and>
   Split ''a.b'' (keyDelm dotted_alias_store) = [''a'', ''b'']"
  by code_simp

lemma find_dotted_alias_never_returns:
  "find_cfg cst dotted_alias_store ''a'' = Some y \<Longrightarrow> False"
proof -
  assume ret: "find_cfg cst dotted_alias_store ''a'' = Some y"
  have "\<not> (dotted_alias_store = dotted_alias_store \<and> ''a'' = ''a'')"
  proof (rule find_cfg.raw_induct
      [where P = "\<lambda>cst c key y. \<not> (c = dotted_alias_store \<and> key = ''a'')", OF _ ret])
    fix f :: "caster \<Rightarrow> Config \<Rightarrow> string \<Rightarrow> (error + val) option"
      and cst :: caster and c :: Config and key0 :: string and y :: "error + val"
    assume IH: "\<And>cst c key y. f cst c key = Some y \<Longrightarrow> \<not> (c = dotted_alias_store \<and> key = ''a'')"
      and step: "Option.bind (realKey c key0) (\<lambda>key.
       case map_of (overrides c) key of
         Some v \<Rightarrow> Some (Inr v)
       | None \<Rightarrow>
          (case map_of (config c) key of
             Some v \<Rightarrow> Some (Inr v)
           | None \<Rightarrow>
              if Contains key (keyDelm c) then
                (case Split key (keyDelm c) of
                   [] \<Rightarrow> Some (Inl IndexOutOfRange)
                 | p0 # rest \<Rightarrow>
                     Option.bind (f cst c p0) (\<lambda>r.
                       case r of
                         Inl e \<Rightarrow> Some (Inl e)
                       | Inr source \<Rightarrow>
                           if \<not> isNil source \<and> isMapKind source
                           then Some (Inr (searchMap cst (toStringMap cst source) rest))
                           else Some (Inr (findDefaults c key))))
              else Some (Inr (findDefaults c key)))) = Some y"
    show "\<not> (c = dotted_alias_store \<and> key0 = ''a'')"
    proof
      assume "c = dotted_alias_store \<and> key0 = ''a''"
      with step dotted_alias_step have "\<exists>z. f cst dotted_alias_store ''a'' = Some z"
        by (auto simp: bind_eq_Some_conv)
      with IH show False by blast
    qed
  qed
  then show False by simp
qed

text \<open>
  C6. The claim asks that \<^verbatim>\<open>find\<close> returns on every key in every store reachable
  through the exposed operations. In the store that \<^verbatim>\<open>RegisterAlias("a", "a.b")\<close>
  builds from the empty store, neither \<^verbatim>\<open>find("a")\<close> nor \<^verbatim>\<open>Get("a")\<close> returns.
\<close>

theorem find_diverges_on_dotted_alias:
  "RegisterAlias New ''a'' ''a.b'' = Some dotted_alias_store \<and>
   find_cfg cst dotted_alias_store ''a'' = None \<and>
   Get cst dotted_alias_store ''a'' = None"
proof -
  have f: "find_cfg cst dotted_alias_store ''a'' = None"
    using find_dotted_alias_never_returns [of cst] by (cases "find_cfg cst dotted_alias_store ''a''") auto
  have "ToLower ''a'' = ''a''" by code_simp
  with f have "Get cst dotted_alias_store ''a'' = None" by (simp add: Get_def)
  with f dotted_alias_reachable show ?thesis by simp
qed

section \<open>The reading methods leave the store\<close>

text \<open>
  C10. A call of \<^verbatim>\<open>Get\<close>, \<^verbatim>\<open>find\<close>, \<^verbatim>\<open>searchMap\<close>, \<^verbatim>\<open>IsSet\<close>, \<^verbatim>\<open>InConfig\<close>,
  \<^verbatim>\<open>AllKeys\<close> or \<^verbatim>\<open>AllSettings\<close> that returns (with a value or with a panic) leaves
  the store, all its fields, as it was before the call.
\<close>

theorem reads_leave_store:
  "readOnly call \<Longrightarrow> exec cst c call = Some (r, c') \<Longrightarrow> c' = c"
  by (cases call) auto

theorem reads_leave_store_witness:
  "readOnly (CallGet ''K'') \<and>
   exec ownCast layered_store (CallGet ''K'') =
     Some (Inr (RetVal (VString ''from overrides'')), layered_store) \<and>
   readOnly CallAllSettings \<and>
   (\<exists>r c'. exec ownCast layered_store CallAllSettings = Some (r, c') \<and> c' = layered_store)"
proof -
  have h1: "readOnly (CallGet ''K'') \<and> readOnly CallAllSettings" by simp
  have "Get ownCast layered_store ''K'' = Some (Inr (VString ''from overrides''))"
    by code_simp
  then have h2: "exec ownCast layered_store (CallGet ''K'') =
     Some (Inr (RetVal (VString ''from overrides'')), layered_store)" by simp
  have "AllSettings ownCast layered_store = Some (Inr [(''k'', VString ''from overrides'')])"
    by code_simp
  then obtain r c' where h3: "exec ownCast layered_store CallAllSettings = Some (r, c')"
    by simp
  from reads_leave_store [of CallAllSettings ownCast layered_store r c'] h1 h3
  have "c' = layered_store" by blast
  with h1 h2 h3 show ?thesis by blast
qed

end
